theory Spec2Isabelle
  imports Main
begin

section \<open>Quality presets and the manager's configuration\<close>

text \<open>
  \<^verbatim>\<open>QUALITY_PRESETS\<close> of \<^verbatim>\<open>stream_manager.py\<close> is a dictionary from a quality
  identifier to a format selector, a resolution and a bitrate. A dictionary lookup of a
  missing key raises \<^verbatim>\<open>KeyError\<close>; the model returns \<open>None\<close> there.
\<close>

record preset =
  format :: string
  resolution :: string
  bitrate :: string

record config = preset +
  url :: string

definition QUALITY_PRESETS :: "string \<rightharpoonup> preset" where
  "QUALITY_PRESETS = map_of
     [(''1080p'', \<lparr>format = ''bestvideo[height<=1080]+bestaudio/best[height<=1080]'',
                  resolution = ''1920x1080'', bitrate = ''4000k''\<rparr>),
      (''720p'', \<lparr>format = ''bestvideo[height<=720]+bestaudio/best[height<=720]'',
                 resolution = ''1280x720'', bitrate = ''2500k''\<rparr>),
      (''480p'', \<lparr>format = ''bestvideo[height<=480]+bestaudio/best[height<=480]'',
                 resolution = ''854x480'', bitrate = ''1000k''\<rparr>),
      (''360p'', \<lparr>format = ''bestvideo[height<=360]+bestaudio/best[height<=360]'',
                 resolution = ''640x360'', bitrate = ''700k''\<rparr>)]"

text \<open>
  The configuration part of \<^verbatim>\<open>StreamManager.__init__\<close>: an identifier that is not a key
  of the table is replaced by \<^verbatim>\<open>"720p"\<close>, then the table is indexed and the preset is
  merged with the URL.
\<close>

definition init_config :: "string \<Rightarrow> string \<Rightarrow> config option" where
  "init_config u quality_key =
     (let quality_key' = (if QUALITY_PRESETS quality_key = None then ''720p'' else quality_key)
      in case QUALITY_PRESETS quality_key' of
           None \<Rightarrow> None
         | Some p \<Rightarrow> Some \<lparr>format = format p, resolution = resolution p,
                           bitrate = bitrate p, url = u\<rparr>)"

section \<open>Commands and the manager's state\<close>

text \<open>
  The items the public methods put on \<^verbatim>\<open>command_queue\<close>: the strings \<^verbatim>\<open>"stop"\<close>,
  \<^verbatim>\<open>"next"\<close>, \<^verbatim>\<open>"prev"\<close> and the pair \<^verbatim>\<open>("skip", video_num)\<close>.
\<close>

datatype cmd_data = Stop | Next | Prev | Skip int

text \<open>The handle of a launched transcoder, with the arguments it was launched with.\<close>

datatype popen = Popen string string string string

record manager =
  ffmpeg_proc :: "popen option"
  playlist :: "string list"
  current_index :: int
  command_queue :: "cmd_data list"
  stop_event :: bool
  stream_ready :: bool
  config :: config

definition init :: "string \<Rightarrow> string \<Rightarrow> manager option" where
  "init u quality_key =
     (case init_config u quality_key of
        None \<Rightarrow> None
      | Some c \<Rightarrow> Some \<lparr>ffmpeg_proc = None, playlist = [], current_index = - 1,
                        command_queue = [], stop_event = False, stream_ready = False,
                        config = c\<rparr>)"

section \<open>Index logic of the worker\<close>

text \<open>
  Section 1 of \<^verbatim>\<open>_stream_worker\<close>: the effect of a dequeued command (other than
  \<^verbatim>\<open>"stop"\<close>) on \<^verbatim>\<open>current_index\<close>, and the value the local \<^verbatim>\<open>command\<close> takes.
\<close>

fun apply_command :: "cmd_data \<Rightarrow> int \<Rightarrow> int" where
  "apply_command (Skip video_num) i = video_num - 1"
| "apply_command Next i = i + 1"
| "apply_command Prev i = i - 1"
| "apply_command Stop i = i"

fun command_name :: "cmd_data \<Rightarrow> string option" where
  "command_name (Skip video_num) = Some ''skip''"
| "command_name Next = Some ''next''"
| "command_name Prev = Some ''prev''"
| "command_name Stop = None"

text \<open>
  The block under \<^verbatim>\<open># Handle index boundaries\<close>: \<open>n\<close> is \<^verbatim>\<open>len(self.playlist)\<close>.
\<close>

definition handle_index_boundaries :: "int \<Rightarrow> int \<Rightarrow> int" where
  "handle_index_boundaries i n =
     (if \<not> (0 \<le> i \<and> i < n) then
        (if i \<ge> n then 0 else if i < 0 then n - 1 else i)
      else i)"

text \<open>
  \<^verbatim>\<open>self.playlist[self.current_index]\<close>: an index from \<open>-len\<close> up to \<open>-1\<close> reads from
  the end of the list, and one outside \<open>[-len, len)\<close> raises \<^verbatim>\<open>IndexError\<close>.
\<close>

datatype exn = IndexError

definition py_index :: "'a list \<Rightarrow> int \<Rightarrow> exn + 'a" where
  "py_index xs i =
     (if 0 \<le> i \<and> i < int (length xs) then Inr (xs ! nat i)
      else if - int (length xs) \<le> i \<and> i < 0 then Inr (xs ! nat (int (length xs) + i))
      else Inl IndexError)"

text \<open>
  What can move the index between two normalisations: a dequeued command, or the
  auto-advance of the cleanup block.
\<close>

datatype index_step = Command cmd_data | Advance

fun apply_step :: "int \<Rightarrow> index_step \<Rightarrow> int" where
  "apply_step i (Command c) = apply_command c i"
| "apply_step i Advance = i + 1"

section \<open>The public methods, seen from the worker\<close>

text \<open>
  \<^verbatim>\<open>next()\<close>, \<^verbatim>\<open>prev()\<close> and \<^verbatim>\<open>skip(video_num)\<close> put an item on the queue;
  \<^verbatim>\<open>stop()\<close> sets \<^verbatim>\<open>stop_event\<close> and then puts \<^verbatim>\<open>"stop"\<close>. They run on other
  threads; the worker sees their effect the next time it reads the queue or the event,
  so the model delivers the calls made since the last read just before each read.
  (\<^verbatim>\<open>stop()\<close> also terminates the transcoder: the worker sees that as an exit when it
  polls the process.)
\<close>

datatype api_call = CallNext | CallPrev | CallSkip int | CallStop

fun queued_item :: "api_call \<Rightarrow> cmd_data" where
  "queued_item CallNext = Next"
| "queued_item CallPrev = Prev"
| "queued_item (CallSkip video_num) = Skip video_num"
| "queued_item CallStop = Stop"

definition call_api :: "manager \<Rightarrow> api_call \<Rightarrow> manager" where
  "call_api s c =
     s\<lparr>stop_event := (stop_event s \<or> c = CallStop),
       command_queue := command_queue s @ [queued_item c]\<rparr>"

definition deliver :: "api_call list \<Rightarrow> manager \<Rightarrow> manager" where
  "deliver cs s = foldl call_api s cs"

section \<open>What the worker does and what it observes\<close>

text \<open>
  The trace of a cycle: the external effects of the worker, in order. Sleeps are in
  milliseconds.
\<close>

datatype event =
    EvGet cmd_data
  | EvFetch string
  | EvLocate string
  | EvClean
  | EvReadyClear
  | EvLaunch popen
  | EvProbe bool
  | EvReadySet
  | EvTerminate
  | EvSleep nat

text \<open>An external call returns a value or raises an \<^verbatim>\<open>Exception\<close>.\<close>

datatype 'a outcome = Raises | Returns 'a

text \<open>
  One iteration of the loop of \<^verbatim>\<open>_wait_for_stream\<close>: the time since \<^verbatim>\<open>start_time\<close>
  read by the loop condition (milliseconds), whether the manifest exists and is not empty,
  the same for \<^verbatim>\<open>stream000.ts\<close>, and whether \<^verbatim>\<open>poll()\<close> finds the process exited.
\<close>

record probe_obs =
  elapsed :: nat
  m3u8_ok :: bool
  ts_ok :: bool
  proc_exited :: bool

text \<open>
  One iteration of the monitoring loop: the public methods called since the last
  iteration, and whether \<^verbatim>\<open>poll()\<close> finds the process exited.
\<close>

record mon_obs =
  calls :: "api_call list"
  exited :: bool

text \<open>
  Everything one cycle of the worker gets from outside: the public methods called before
  the loop condition is read, the playlist resolver, the media locator, whether
  \<^verbatim>\<open>subprocess.Popen\<close> raises, what the startup probe sees (or that it raises), what the
  monitoring loop sees, and the public methods called before the cleanup block reads the
  queue and the event.
\<close>

record env =
  pre_calls :: "api_call list"
  get_playlist_videos :: "string \<Rightarrow> string list outcome"
  get_media_url :: "string \<Rightarrow> string \<Rightarrow> (string option \<times> string option) outcome"
  popen_raises :: bool
  probe :: "probe_obs list outcome"
  polls :: "mon_obs list"
  late_calls :: "api_call list"

section \<open>The startup probe\<close>

text \<open>
  The loop of \<^verbatim>\<open>_wait_for_stream\<close>, with \<^verbatim>\<open>m3u8_ready\<close> and \<^verbatim>\<open>ts_ready\<close> as
  arguments; \<open>has_proc\<close> is the truth value of \<^verbatim>\<open>self.ffmpeg_proc\<close>. The result is
  \<open>None\<close> when the observations end before the loop does.
\<close>

fun wait_loop :: "nat \<Rightarrow> bool \<Rightarrow> probe_obs list \<Rightarrow> bool \<Rightarrow> bool \<Rightarrow> bool option" where
  "wait_loop timeout has_proc [] m3u8_ready ts_ready = None"
| "wait_loop timeout has_proc (ob # obs) m3u8_ready ts_ready =
     (if \<not> elapsed ob < timeout then Some False
      else
        let m3u8_ready' = (if \<not> m3u8_ready \<and> m3u8_ok ob then True else m3u8_ready);
            ts_ready' = (if \<not> ts_ready \<and> ts_ok ob then True else ts_ready)
        in if m3u8_ready' \<and> ts_ready' then Some True
           else if has_proc \<and> proc_exited ob then Some False
           else wait_loop timeout has_proc obs m3u8_ready' ts_ready')"

definition wait_for_stream :: "manager \<Rightarrow> nat \<Rightarrow> probe_obs list \<Rightarrow> bool option" where
  "wait_for_stream s timeout obs = wait_loop timeout (ffmpeg_proc s \<noteq> None) obs False False"

section \<open>One cycle of the worker\<close>

datatype exit_kind = Fallthrough | Continue | Break | Raised

text \<open>Section 1: at most one item is taken from the queue.\<close>

definition check_commands :: "manager \<Rightarrow> bool \<times> string option \<times> event list \<times> manager" where
  "check_commands s =
     (case command_queue s of
        [] \<Rightarrow> (False, None, [], s)
      | cmd_data # q \<Rightarrow>
          if cmd_data = Stop then (True, None, [EvGet cmd_data], s\<lparr>command_queue := q\<rparr>)
          else (False, command_name cmd_data, [EvGet cmd_data],
                s\<lparr>command_queue := q,
                  current_index := apply_command cmd_data (current_index s)\<rparr>))"

text \<open>Section 2, first part: an empty playlist is fetched.\<close>

definition ensure_playlist :: "env \<Rightarrow> manager \<Rightarrow> exit_kind \<times> event list \<times> manager" where
  "ensure_playlist e s =
     (if playlist s = [] then
        (case get_playlist_videos e (url (config s)) of
           Raises \<Rightarrow> (Raised, [EvFetch (url (config s))], s)
         | Returns videos \<Rightarrow>
             if videos = [] then
               (Continue, [EvFetch (url (config s)), EvSleep 60000], s\<lparr>playlist := videos\<rparr>)
             else
               (Fallthrough, [EvFetch (url (config s))],
                s\<lparr>playlist := videos,
                  current_index := (if current_index s = - 1 then 0 else current_index s)\<rparr>))
      else (Fallthrough, [], s))"

text \<open>Python's truth value of a URL that is \<^verbatim>\<open>None\<close> or a string.\<close>

definition falsy :: "string option \<Rightarrow> bool" where
  "falsy u = (u = None \<or> u = Some [])"

text \<open>
  Section 3 from the launch on: the output directory is cleaned, readiness is cleared,
  the transcoder is launched and probed, and readiness is set when the probe succeeds.
  The timeout of the probe is the default, 20 seconds.
\<close>

definition launch :: "env \<Rightarrow> string option \<Rightarrow> string \<Rightarrow> string \<Rightarrow> manager
    \<Rightarrow> (exit_kind \<times> string option \<times> event list \<times> manager) option" where
  "launch e command video_url audio_url s =
     (let s1 = s\<lparr>stream_ready := False\<rparr> in
      if popen_raises e then Some (Raised, command, [EvClean, EvReadyClear], s1)
      else
        let p = Popen video_url audio_url (resolution (config s1)) (bitrate (config s1));
            s2 = s1\<lparr>ffmpeg_proc := Some p\<rparr>
        in case probe e of
             Raises \<Rightarrow> Some (Raised, command, [EvClean, EvReadyClear, EvLaunch p], s2)
           | Returns obs \<Rightarrow>
               (case wait_for_stream s2 20000 obs of
                  None \<Rightarrow> None
                | Some ok \<Rightarrow>
                    if \<not> ok then
                      Some (Continue, Some ''next'',
                            [EvClean, EvReadyClear, EvLaunch p, EvProbe False]
                              @ (if ffmpeg_proc s2 \<noteq> None then [EvTerminate] else []),
                            s2)
                    else
                      Some (Fallthrough, command,
                            [EvClean, EvReadyClear, EvLaunch p, EvProbe True, EvReadySet],
                            s2\<lparr>stream_ready := True\<rparr>)))"

text \<open>
  Sections 1 to 3: from the top of the \<^verbatim>\<open>try\<close> block to the moment the stream is
  live (\<open>Fallthrough\<close>), or to the \<^verbatim>\<open>break\<close>, \<^verbatim>\<open>continue\<close> or exception that leaves
  the block before.
\<close>

definition startup :: "env \<Rightarrow> manager
    \<Rightarrow> (exit_kind \<times> string option \<times> event list \<times> manager) option" where
  "startup e s =
     (case check_commands s of
        (stopped, command, ev1, s1) \<Rightarrow>
          if stopped then Some (Break, command, ev1, s1)
          else
            (case ensure_playlist e s1 of
               (k2, ev2, s2) \<Rightarrow>
                 if k2 \<noteq> Fallthrough then Some (k2, command, ev1 @ ev2, s2)
                 else
                   let s3 = s2\<lparr>current_index :=
                                 handle_index_boundaries (current_index s2)
                                   (int (length (playlist s2)))\<rparr>
                   in case py_index (playlist s3) (current_index s3) of
                        Inl err \<Rightarrow> Some (Raised, command, ev1 @ ev2, s3)
                      | Inr page_url \<Rightarrow>
                          (case get_media_url e page_url (format (config s3)) of
                             Raises \<Rightarrow>
                               Some (Raised, command, ev1 @ ev2 @ [EvLocate page_url], s3)
                           | Returns (video_url, audio_url) \<Rightarrow>
                               if falsy video_url \<or> falsy audio_url then
                                 Some (Continue, Some ''next'',
                                       ev1 @ ev2 @ [EvLocate page_url], s3)
                               else
                                 map_option
                                   (\<lambda>(k, c, ev, s'). (k, c, ev1 @ ev2 @ [EvLocate page_url] @ ev, s'))
                                   (launch e command (the video_url) (the audio_url) s3))))"

text \<open>
  Section 4: the monitoring loop. The result is \<open>None\<close> when the observations end
  while the transcoder is still running.
\<close>

fun monitor_loop :: "mon_obs list \<Rightarrow> manager \<Rightarrow> (event list \<times> manager) option" where
  "monitor_loop [] s = None"
| "monitor_loop (ob # obs) s =
     (let s1 = deliver (calls ob) s in
      if exited ob then Some ([], s1)
      else if stop_event s1 then Some ([EvTerminate], s1)
      else if command_queue s1 \<noteq> [] then Some ([EvTerminate], s1)
      else map_option (\<lambda>(ev, s'). (EvSleep 500 # ev, s')) (monitor_loop obs s1))"

definition try_body :: "env \<Rightarrow> manager
    \<Rightarrow> (exit_kind \<times> string option \<times> event list \<times> manager) option" where
  "try_body e s =
     (case startup e s of
        None \<Rightarrow> None
      | Some (k, command, ev, s1) \<Rightarrow>
          if k = Fallthrough then
            map_option (\<lambda>(ev', s2). (Fallthrough, command, ev @ ev', s2))
              (monitor_loop (polls e) s1)
          else Some (k, command, ev, s1))"

text \<open>The \<^verbatim>\<open>except Exception\<close> block.\<close>

definition handle_exception :: "manager \<Rightarrow> event list" where
  "handle_exception s =
     (if ffmpeg_proc s \<noteq> None then [EvTerminate] else []) @ [EvSleep 10000]"

text \<open>
  Section 5, the \<^verbatim>\<open>finally\<close> block: it runs on every way out of the \<^verbatim>\<open>try\<close> block,
  the \<^verbatim>\<open>break\<close> and the \<^verbatim>\<open>continue\<close>s included.
\<close>

definition cleanup :: "api_call list \<Rightarrow> string option \<Rightarrow> manager \<Rightarrow> event list \<times> manager" where
  "cleanup late command s =
     (let s1 = deliver late (s\<lparr>ffmpeg_proc := None\<rparr>);
          s2 = (if command = None \<and> command_queue s1 = [] \<and> \<not> stop_event s1
                then s1\<lparr>current_index := current_index s1 + 1\<rparr> else s1)
      in (if command_queue s2 = [] then [EvSleep 3000] else [], s2))"

definition cycle :: "env \<Rightarrow> manager \<Rightarrow> (exit_kind \<times> event list \<times> manager) option" where
  "cycle e s =
     (case try_body e s of
        None \<Rightarrow> None
      | Some (k, command, ev, s1) \<Rightarrow>
          (case cleanup (late_calls e) command s1 of
             (ev', s2) \<Rightarrow>
               Some (k, ev @ (if k = Raised then handle_exception s1 else []) @ ev', s2)))"

section \<open>The worker loop\<close>

text \<open>
  \<^verbatim>\<open>_stream_worker\<close> over the cycles whose environment is given. The first component
  of the result tells whether the loop was left (then readiness is set); it is \<open>False\<close>
  when the given cycles are over and the loop goes on.
\<close>

fun stream_worker :: "env list \<Rightarrow> manager \<Rightarrow> (bool \<times> event list \<times> manager) option" where
  "stream_worker [] s = Some (False, [], s)"
| "stream_worker (e # es) s =
     (let s0 = deliver (pre_calls e) s in
      if stop_event s0 then Some (True, [EvReadySet], s0\<lparr>stream_ready := True\<rparr>)
      else
        (case cycle e s0 of
           None \<Rightarrow> None
         | Some (k, ev, s1) \<Rightarrow>
             if k = Break then Some (True, ev @ [EvReadySet], s1\<lparr>stream_ready := True\<rparr>)
             else map_option (\<lambda>(fin, ev', s'). (fin, ev @ ev', s')) (stream_worker es s1)))"

section \<open>Scenarios\<close>

text \<open>
  Concrete states and environments on which the worker is run below: a manager as
  \<^verbatim>\<open>__init__\<close> leaves it, a manager with the playlist A, B, C, and environments in
  which the resolver and the locator find nothing, in which every video plays, in which
  \<^verbatim>\<open>next()\<close> is called while a video is live, in which the startup probe fails or
  raises, and in which \<^verbatim>\<open>stop()\<close> is called.
\<close>

definition example_config :: config where
  "example_config = \<lparr>format = ''bestvideo[height<=720]+bestaudio/best[height<=720]'',
     resolution = ''1280x720'', bitrate = ''2500k'', url = ''U''\<rparr>"

definition fresh :: manager where
  "fresh = \<lparr>ffmpeg_proc = None, playlist = [], current_index = - 1, command_queue = [],
     stop_event = False, stream_ready = False, config = example_config\<rparr>"

definition loaded :: "int \<Rightarrow> cmd_data list \<Rightarrow> bool \<Rightarrow> manager" where
  "loaded i q r = \<lparr>ffmpeg_proc = None, playlist = [''A'', ''B'', ''C''], current_index = i,
     command_queue = q, stop_event = False, stream_ready = r, config = example_config\<rparr>"

definition ready_at_once :: "bool \<Rightarrow> probe_obs" where
  "ready_at_once x = \<lparr>elapsed = 0, m3u8_ok = True, ts_ok = True, proc_exited = x\<rparr>"

definition live_A :: manager where
  "live_A = (loaded 0 [] True)\<lparr>ffmpeg_proc := Some (Popen ''v:A'' ''a:A'' ''1280x720'' ''2500k'')\<rparr>"

definition env_unresolved :: env where
  "env_unresolved = \<lparr>pre_calls = [], get_playlist_videos = (\<lambda>u. Returns []),
     get_media_url = (\<lambda>page f. Returns (None, None)), popen_raises = False,
     probe = Returns [], polls = [], late_calls = []\<rparr>"

definition env_playing :: "mon_obs list \<Rightarrow> env" where
  "env_playing ps = \<lparr>pre_calls = [], get_playlist_videos = (\<lambda>u. Returns []),
     get_media_url = (\<lambda>page f. Returns (Some (''v:'' @ page), Some (''a:'' @ page))),
     popen_raises = False, probe = Returns [ready_at_once False], polls = ps,
     late_calls = []\<rparr>"

definition env_next_while_live :: env where
  "env_next_while_live =
     env_playing [\<lparr>calls = [], exited = False\<rparr>, \<lparr>calls = [CallNext], exited = False\<rparr>]"

definition env_probe_fails :: env where
  "env_probe_fails = (env_playing [])
     \<lparr>probe := Returns [\<lparr>elapsed = 0, m3u8_ok = True, ts_ok = False, proc_exited = True\<rparr>]\<rparr>"

definition env_probe_raises :: env where
  "env_probe_raises = (env_playing [])\<lparr>probe := Raises\<rparr>"

definition env_stop_called :: env where
  "env_stop_called = env_unresolved\<lparr>pre_calls := [CallStop]\<rparr>"

definition env_resolved :: env where
  "env_resolved = (env_playing [\<lparr>calls = [], exited = True\<rparr>])
     \<lparr>get_playlist_videos := (\<lambda>u. Returns [''A'', ''B'', ''C''])\<rparr>"

text \<open>
  The events that leave readiness alone and launch nothing: those of sections 1 and 2, the
  call of the media locator, the sleeps and the termination of the transcoder.
\<close>

fun prefix_event :: "event \<Rightarrow> bool" where
  "prefix_event (EvGet c) = True"
| "prefix_event (EvFetch u) = True"
| "prefix_event (EvLocate u) = True"
| "prefix_event (EvSleep n) = True"
| "prefix_event EvTerminate = True"
| "prefix_event x = False"

section \<open>Auxiliary facts\<close>

subsection \<open>Delivered calls\<close>

lemma deliver_fields [simp]:
  "current_index (deliver cs s) = current_index s"
  "playlist (deliver cs s) = playlist s"
  "stream_ready (deliver cs s) = stream_ready s"
  "ffmpeg_proc (deliver cs s) = ffmpeg_proc s"
  "config (deliver cs s) = config s"
  by (induction cs arbitrary: s) (simp_all add: deliver_def call_api_def)

lemma deliver_queue: "command_queue (deliver cs s) = command_queue s @ map queued_item cs"
  by (induction cs arbitrary: s) (simp_all add: deliver_def call_api_def)

lemma deliver_stop: "stop_event (deliver cs s) = (stop_event s \<or> CallStop \<in> set cs)"
  by (induction cs arbitrary: s) (auto simp: deliver_def call_api_def)

lemma deliver_Nil [simp]: "deliver [] s = s"
  by (simp add: deliver_def)

lemma deliver_single: "deliver [c] s = call_api s c"
  by (simp add: deliver_def)

lemma call_api_queue: "command_queue (call_api s c) = command_queue s @ [queued_item c]"
  by (simp add: call_api_def)

lemma call_api_stop: "stop_event (call_api s c) = (stop_event s \<or> c = CallStop)"
  by (simp add: call_api_def)

subsection \<open>The monitoring loop and the cleanup block\<close>

lemma monitor_loop_fields:
  "monitor_loop obs s = Some (ev, s') \<Longrightarrow>
     current_index s' = current_index s \<and> playlist s' = playlist s
     \<and> stream_ready s' = stream_ready s \<and> ffmpeg_proc s' = ffmpeg_proc s
     \<and> config s' = config s \<and> set ev \<subseteq> {EvSleep 500, EvTerminate}"
proof (induction obs arbitrary: s ev)
  case Nil
  then show ?case by simp
next
  case (Cons ob obs)
  show ?case
  proof (cases "exited ob \<or> stop_event (deliver (calls ob) s) \<or> command_queue (deliver (calls ob) s) \<noteq> []")
    case True
    with Cons.prems show ?thesis by (auto simp: Let_def split: if_splits)
  next
    case False
    with Cons.prems obtain ev0 where
      r: "monitor_loop obs (deliver (calls ob) s) = Some (ev0, s')" and ev: "ev = EvSleep 500 # ev0"
      by (auto simp: Let_def)
    from Cons.IH [OF r] ev show ?thesis by auto
  qed
qed

lemma monitor_loop_events:
  "monitor_loop obs s = Some (ev, s') \<Longrightarrow> list_all prefix_event ev"
  using monitor_loop_fields [of obs s ev s'] by (auto simp: list_all_iff)

lemma monitor_loop_arrival:
  "calls ob = [c] \<Longrightarrow> c \<noteq> CallStop \<Longrightarrow> \<not> exited ob \<Longrightarrow> \<not> stop_event s \<Longrightarrow>
     monitor_loop (ob # rest) s = Some ([EvTerminate], call_api s c)"
  by (simp add: deliver_single call_api_queue call_api_stop)

lemma monitor_loop_quiet:
  "calls a = [] \<Longrightarrow> \<not> exited a \<Longrightarrow> command_queue s = [] \<Longrightarrow> \<not> stop_event s \<Longrightarrow>
     monitor_loop (a # obs) s
       = map_option (\<lambda>(ev, s'). (EvSleep 500 # ev, s')) (monitor_loop obs s)"
  by simp

lemma monitor_loop_command:
  assumes "\<forall>ob' \<in> set quiet. calls ob' = [] \<and> \<not> exited ob'"
    and "calls ob = [c]" and "c \<noteq> CallStop" and "\<not> exited ob"
    and "command_queue s = []" and "\<not> stop_event s"
  shows "monitor_loop (quiet @ ob # rest) s
           = Some (replicate (length quiet) (EvSleep 500) @ [EvTerminate], call_api s c)"
  using assms(1)
proof (induction quiet)
  case Nil
  show ?case
    using monitor_loop_arrival [OF assms(2) assms(3) assms(4) assms(6)] by simp
next
  case (Cons a quiet)
  from Cons.prems have a: "calls a = []" "\<not> exited a"
    and r: "\<forall>ob' \<in> set quiet. calls ob' = [] \<and> \<not> exited ob'"
    by simp_all
  have "monitor_loop (a # (quiet @ ob # rest)) s
          = map_option (\<lambda>(ev, s'). (EvSleep 500 # ev, s')) (monitor_loop (quiet @ ob # rest) s)"
    by (rule monitor_loop_quiet [OF a assms(5) assms(6)])
  then show ?case
    by (simp only: Cons.IH [OF r] append_Cons option.map prod.case length_Cons replicate_Suc)
qed

lemma cleanup_fields:
  "cleanup late command s = (ev, s') \<Longrightarrow>
     ffmpeg_proc s' = None \<and> playlist s' = playlist s \<and> stream_ready s' = stream_ready s
     \<and> config s' = config s
     \<and> command_queue s' = command_queue s @ map queued_item late
     \<and> stop_event s' = (stop_event s \<or> CallStop \<in> set late)"
  unfolding cleanup_def Let_def
  by (cases "command = None \<and> command_queue (deliver late (s\<lparr>ffmpeg_proc := None\<rparr>)) = []
        \<and> \<not> stop_event (deliver late (s\<lparr>ffmpeg_proc := None\<rparr>))")
     (auto simp: deliver_queue deliver_stop)

lemma cleanup_index:
  "cleanup late command s = (ev, s') \<Longrightarrow>
     current_index s' =
       (if command = None \<and> command_queue s = [] \<and> late = [] \<and> \<not> stop_event s
        then current_index s + 1 else current_index s)"
  unfolding cleanup_def Let_def
  by (cases "command = None \<and> command_queue (deliver late (s\<lparr>ffmpeg_proc := None\<rparr>)) = []
        \<and> \<not> stop_event (deliver late (s\<lparr>ffmpeg_proc := None\<rparr>))")
     (auto simp: deliver_queue deliver_stop)

lemma cleanup_events:
  "cleanup late command s = (ev, s') \<Longrightarrow>
     ev = (if command_queue s' = [] then [EvSleep 3000] else [])"
  unfolding cleanup_def Let_def
  by (cases "command = None \<and> command_queue (deliver late (s\<lparr>ffmpeg_proc := None\<rparr>)) = []
        \<and> \<not> stop_event (deliver late (s\<lparr>ffmpeg_proc := None\<rparr>))")
     auto

subsection \<open>The startup probe\<close>

lemma wait_loop_both_ready:
  assumes "\<forall>ob' \<in> set pre. elapsed ob' < timeout \<and> \<not> proc_exited ob'"
    and "elapsed ob < timeout" and "m3u8_ok ob" and "ts_ok ob"
  shows "wait_loop timeout has_proc (pre @ ob # post) m t = Some True"
  using assms by (induction pre arbitrary: m t) (simp_all add: Let_def)

lemma wait_loop_False:
  assumes "wait_loop timeout has_proc obs m t = Some False"
  shows "\<exists>pre ob post. obs = pre @ ob # post
           \<and> (\<not> elapsed ob < timeout
              \<or> (has_proc \<and> proc_exited ob
                  \<and> \<not> ((m \<or> (\<exists>ob' \<in> set (pre @ [ob]). m3u8_ok ob'))
                        \<and> (t \<or> (\<exists>ob' \<in> set (pre @ [ob]). ts_ok ob')))))"
  using assms
proof (induction obs arbitrary: m t)
  case Nil
  then show ?case by simp
next
  case (Cons a obs)
  show ?case
  proof (cases "elapsed a < timeout")
    case False
    then have "a # obs = [] @ a # obs \<and> \<not> elapsed a < timeout" by simp
    then show ?thesis by blast
  next
    case in_time: True
    let ?m = "m \<or> m3u8_ok a" and ?t = "t \<or> ts_ok a"
    from Cons.prems in_time have nb: "\<not> (?m \<and> ?t)"
      by (auto simp: Let_def split: if_splits)
    show ?thesis
    proof (cases "has_proc \<and> proc_exited a")
      case True
      with nb have "a # obs = [] @ a # obs
          \<and> has_proc \<and> proc_exited a
          \<and> \<not> ((m \<or> (\<exists>ob' \<in> set ([] @ [a]). m3u8_ok ob'))
                \<and> (t \<or> (\<exists>ob' \<in> set ([] @ [a]). ts_ok ob')))"
        by simp
      then show ?thesis by blast
    next
      case False
      with Cons.prems in_time nb have "wait_loop timeout has_proc obs ?m ?t = Some False"
        by (auto simp: Let_def split: if_splits)
      from Cons.IH [OF this] obtain pre ob post where
        o: "obs = pre @ ob # post" and
        c: "\<not> elapsed ob < timeout
              \<or> (has_proc \<and> proc_exited ob
                  \<and> \<not> ((?m \<or> (\<exists>ob' \<in> set (pre @ [ob]). m3u8_ok ob'))
                        \<and> (?t \<or> (\<exists>ob' \<in> set (pre @ [ob]). ts_ok ob'))))"
        by blast
      from o have "a # obs = (a # pre) @ ob # post" by simp
      moreover from c have "\<not> elapsed ob < timeout
              \<or> (has_proc \<and> proc_exited ob
                  \<and> \<not> ((m \<or> (\<exists>ob' \<in> set ((a # pre) @ [ob]). m3u8_ok ob'))
                        \<and> (t \<or> (\<exists>ob' \<in> set ((a # pre) @ [ob]). ts_ok ob'))))"
        by auto
      ultimately show ?thesis by blast
    qed
  qed
qed

subsection \<open>The shape of a cycle\<close>

lemma prefix_event_not_ready:
  assumes "list_all prefix_event xs"
  shows "EvReadyClear \<notin> set xs" and "EvReadySet \<notin> set xs"
    and "EvProbe b \<notin> set xs" and "EvLaunch p \<notin> set xs" and "EvClean \<notin> set xs"
  using assms by (auto simp: list_all_iff)

lemma check_commands_result:
  "check_commands s = (stopped, command, ev, s1) \<Longrightarrow>
     list_all prefix_event ev \<and> stream_ready s1 = stream_ready s
     \<and> ffmpeg_proc s1 = ffmpeg_proc s \<and> stop_event s1 = stop_event s
     \<and> (stopped \<longrightarrow> ev = [EvGet Stop])"
  by (cases "command_queue s") (auto simp: check_commands_def split: if_splits)

lemma ensure_playlist_result:
  "ensure_playlist e s = (k, ev, s1) \<Longrightarrow>
     list_all prefix_event ev \<and> stream_ready s1 = stream_ready s
     \<and> ffmpeg_proc s1 = ffmpeg_proc s \<and> stop_event s1 = stop_event s \<and> k \<noteq> Break"
  by (cases "get_playlist_videos e (url (config s))")
     (auto simp: ensure_playlist_def split: if_splits)

lemma launch_result:
  assumes "launch e command v a s = Some (k, c, ev, s1)"
  shows "k \<noteq> Break"
    and "stream_ready s1 = (EvProbe True \<in> set ev)"
    and "(EvReadySet \<in> set ev) = (EvProbe True \<in> set ev)"
    and "(k = Fallthrough) = (EvProbe True \<in> set ev)"
    and "\<exists>rest. ev = EvClean # EvReadyClear # rest
           \<and> (\<forall>p. EvLaunch p \<in> set ev \<longrightarrow> (\<exists>post. rest = EvLaunch p # post))"
    and "stop_event s1 = stop_event s"
  using assms
  by (auto simp: launch_def Let_def split: if_splits outcome.splits option.splits)

lemma startup_cases:
  assumes "startup e s = Some (k, c, ev, s1)"
  shows "(list_all prefix_event ev \<and> stream_ready s1 = stream_ready s
            \<and> stop_event s1 = stop_event s \<and> ffmpeg_proc s1 = ffmpeg_proc s
            \<and> k \<noteq> Fallthrough \<and> (k = Break \<longrightarrow> ev = [EvGet Stop]))
       \<or> (\<exists>pre lev c0 v a s0. ev = pre @ lev \<and> list_all prefix_event pre
              \<and> launch e c0 v a s0 = Some (k, c, lev, s1) \<and> stop_event s0 = stop_event s)"
proof -
  obtain stopped command ev1 sa where cc: "check_commands s = (stopped, command, ev1, sa)"
    by (cases "check_commands s") auto
  note ccr = check_commands_result [OF cc]
  show ?thesis
  proof (cases stopped)
    case True
    with assms cc ccr show ?thesis by (auto simp: startup_def)
  next
    case ns: False
    obtain k2 ev2 sb where ep: "ensure_playlist e sa = (k2, ev2, sb)"
      by (cases "ensure_playlist e sa") auto
    note epr = ensure_playlist_result [OF ep]
    show ?thesis
    proof (cases "k2 = Fallthrough")
      case False
      with assms cc ns ep ccr epr show ?thesis by (auto simp: startup_def)
    next
      case ft: True
      define sc where "sc = sb\<lparr>current_index :=
          handle_index_boundaries (current_index sb) (int (length (playlist sb)))\<rparr>"
      have scr: "stream_ready sc = stream_ready s" "stop_event sc = stop_event s"
        "ffmpeg_proc sc = ffmpeg_proc s"
        using ccr epr by (simp_all add: sc_def)
      have pre: "list_all prefix_event (ev1 @ ev2)"
        using ccr epr by simp
      from assms cc ns ep ft
      have st: "(case py_index (playlist sc) (current_index sc) of
                   Inl err \<Rightarrow> Some (Raised, command, ev1 @ ev2, sc)
                 | Inr page_url \<Rightarrow>
                     (case get_media_url e page_url (format (config sc)) of
                        Raises \<Rightarrow> Some (Raised, command, ev1 @ ev2 @ [EvLocate page_url], sc)
                      | Returns (video_url, audio_url) \<Rightarrow>
                          if falsy video_url \<or> falsy audio_url then
                            Some (Continue, Some ''next'', ev1 @ ev2 @ [EvLocate page_url], sc)
                          else
                            map_option
                              (\<lambda>(k, c, ev, s'). (k, c, ev1 @ ev2 @ [EvLocate page_url] @ ev, s'))
                              (launch e command (the video_url) (the audio_url) sc)))
                = Some (k, c, ev, s1)"
        unfolding sc_def by (simp add: startup_def Let_def)
      show ?thesis
      proof (cases "py_index (playlist sc) (current_index sc)")
        case (Inl err)
        with st pre scr show ?thesis by auto
      next
        case (Inr page_url)
        show ?thesis
        proof (cases "get_media_url e page_url (format (config sc))")
          case Raises
          with st Inr pre scr show ?thesis by auto
        next
          case (Returns r)
          obtain video_url audio_url where r: "r = (video_url, audio_url)" by (cases r)
          show ?thesis
          proof (cases "falsy video_url \<or> falsy audio_url")
            case True
            with st Inr Returns r pre scr show ?thesis by auto
          next
            case False
            with st Inr Returns r obtain k' c' lev s'
              where l: "launch e command (the video_url) (the audio_url) sc = Some (k', c', lev, s')"
                and eq: "(k, c, ev, s1) = (k', c', ev1 @ ev2 @ [EvLocate page_url] @ lev, s')"
              by (cases "launch e command (the video_url) (the audio_url) sc") auto
            from eq have ev: "ev = (ev1 @ ev2 @ [EvLocate page_url]) @ lev" by simp
            have "list_all prefix_event (ev1 @ ev2 @ [EvLocate page_url])"
              using pre by simp
            with l eq ev scr(2) show ?thesis by blast
          qed
        qed
      qed
    qed
  qed
qed

lemma cycle_decompose:
  assumes "cycle e s = Some (k, tr, s')"
  shows "\<exists>c ev0 s0 tail. startup e s = Some (k, c, ev0, s0) \<and> tr = ev0 @ tail
           \<and> list_all prefix_event tail \<and> stream_ready s' = stream_ready s0"
proof -
  from assms obtain c ev s1 cev where
    tb: "try_body e s = Some (k, c, ev, s1)" and
    cl: "cleanup (late_calls e) c s1 = (cev, s')" and
    tr: "tr = ev @ (if k = Raised then handle_exception s1 else []) @ cev"
    by (auto simp: cycle_def split: option.splits prod.splits)
  have tail: "list_all prefix_event ((if k = Raised then handle_exception s1 else []) @ cev)"
    using cleanup_events [OF cl] by (simp add: handle_exception_def)
  from cleanup_fields [OF cl] have r: "stream_ready s' = stream_ready s1" by simp
  from tb obtain ev0 s0 where st: "startup e s = Some (k, c, ev0, s0)"
    by (auto simp: try_body_def split: option.splits prod.splits if_splits)
  show ?thesis
  proof (cases "k = Fallthrough")
    case True
    with tb st obtain mev where m: "monitor_loop (polls e) s0 = Some (mev, s1)"
      and ev: "ev = ev0 @ mev"
      by (auto simp: try_body_def)
    from monitor_loop_fields [OF m] r have "stream_ready s' = stream_ready s0" by simp
    moreover from monitor_loop_events [OF m] tail
    have "list_all prefix_event (mev @ (if k = Raised then handle_exception s1 else []) @ cev)"
      by simp
    moreover have "tr = ev0 @ (mev @ (if k = Raised then handle_exception s1 else []) @ cev)"
      using tr ev by simp
    ultimately show ?thesis using st by blast
  next
    case False
    with tb st have "ev = ev0" "s1 = s0" by (auto simp: try_body_def)
    with tr tail r st show ?thesis by blast
  qed
qed

lemma cycle_Break:
  assumes "cycle e s = Some (Break, tr, s')"
  shows "EvGet Stop \<in> set tr"
proof -
  from cycle_decompose [OF assms] obtain c ev0 s0 tail where
    st: "startup e s = Some (Break, c, ev0, s0)" and tr: "tr = ev0 @ tail"
    by blast
  from startup_cases [OF st] show ?thesis
  proof
    assume "list_all prefix_event ev0 \<and> stream_ready s0 = stream_ready s
            \<and> stop_event s0 = stop_event s \<and> ffmpeg_proc s0 = ffmpeg_proc s
            \<and> Break \<noteq> Fallthrough \<and> (Break = Break \<longrightarrow> ev0 = [EvGet Stop])"
    then show ?thesis by (simp add: tr)
  next
    assume "\<exists>pre lev c0 v a s1. ev0 = pre @ lev \<and> list_all prefix_event pre
              \<and> launch e c0 v a s1 = Some (Break, c, lev, s0) \<and> stop_event s1 = stop_event s"
    then obtain c0 v a s1 lev where "launch e c0 v a s1 = Some (Break, c, lev, s0)" by blast
    from launch_result(1) [OF this] show ?thesis by simp
  qed
qed

lemma stream_worker_exit:
  "stream_worker es s = Some (True, tr, s') \<Longrightarrow>
     stream_ready s' \<and> (stop_event s' \<or> EvGet Stop \<in> set tr)"
proof (induction es arbitrary: s tr)
  case Nil
  then show ?case by simp
next
  case (Cons e es)
  let ?s0 = "deliver (pre_calls e) s"
  show ?case
  proof (cases "stop_event ?s0")
    case True
    with Cons.prems show ?thesis by (auto simp: Let_def)
  next
    case ns: False
    with Cons.prems obtain k ev s1 where cy: "cycle e ?s0 = Some (k, ev, s1)"
      by (cases "cycle e ?s0") (auto simp: Let_def)
    show ?thesis
    proof (cases "k = Break")
      case True
      with Cons.prems ns cy have "tr = ev @ [EvReadySet]" "s' = s1\<lparr>stream_ready := True\<rparr>"
        by (simp_all add: Let_def)
      moreover from cy True have "EvGet Stop \<in> set ev" by (simp add: cycle_Break)
      ultimately show ?thesis by simp
    next
      case False
      with Cons.prems ns cy obtain ev' where
        r: "stream_worker es s1 = Some (True, ev', s')" and tr: "tr = ev @ ev'"
        by (cases "stream_worker es s1") (auto simp: Let_def)
      from Cons.IH [OF r] tr show ?thesis by auto
    qed
  qed
qed

subsection \<open>The index after a cycle driven by a command\<close>

lemma launch_index:
  assumes "launch e command v a s = Some (k, c, ev, s1)"
  shows "current_index s1 = current_index s" and "playlist s1 = playlist s"
    and "command \<noteq> None \<longrightarrow> c \<noteq> None"
  using assms
  by (auto simp: launch_def Let_def split: if_splits outcome.splits option.splits)

lemma startup_unfold:
  assumes "check_commands s = (False, command, ev1, sa)"
    and "ensure_playlist e sa = (Fallthrough, ev2, sb)"
    and "sc = sb\<lparr>current_index :=
                 handle_index_boundaries (current_index sb) (int (length (playlist sb)))\<rparr>"
  shows "startup e s
     = (case py_index (playlist sc) (current_index sc) of
          Inl err \<Rightarrow> Some (Raised, command, ev1 @ ev2, sc)
        | Inr page_url \<Rightarrow>
            (case get_media_url e page_url (format (config sc)) of
               Raises \<Rightarrow> Some (Raised, command, ev1 @ ev2 @ [EvLocate page_url], sc)
             | Returns (video_url, audio_url) \<Rightarrow>
                 if falsy video_url \<or> falsy audio_url then
                   Some (Continue, Some ''next'', ev1 @ ev2 @ [EvLocate page_url], sc)
                 else
                   map_option
                     (\<lambda>(k, c, ev, s'). (k, c, ev1 @ ev2 @ [EvLocate page_url] @ ev, s'))
                     (launch e command (the video_url) (the audio_url) sc)))"
  unfolding assms(3) using assms(1,2) by (simp add: startup_def Let_def)

lemma startup_after_command:
  assumes st: "startup e s = Some (k, c, ev, s1)"
    and q: "command_queue s = cmd # q" and ns: "cmd \<noteq> Stop" and pl: "playlist s \<noteq> []"
  shows "current_index s1
           = handle_index_boundaries (apply_command cmd (current_index s))
               (int (length (playlist s)))"
    and "playlist s1 = playlist s" and "c \<noteq> None"
proof -
  let ?sa = "s\<lparr>command_queue := q,
               current_index := apply_command cmd (current_index s)\<rparr>"
  have cn: "command_name cmd \<noteq> None" using ns by (cases cmd) simp_all
  have cc: "check_commands s = (False, command_name cmd, [EvGet cmd], ?sa)"
    using q ns by (simp add: check_commands_def)
  have ep: "ensure_playlist e ?sa = (Fallthrough, [], ?sa)"
    using pl by (simp add: ensure_playlist_def)
  define sc where "sc = ?sa\<lparr>current_index :=
      handle_index_boundaries (current_index ?sa) (int (length (playlist ?sa)))\<rparr>"
  have sci: "current_index sc
      = handle_index_boundaries (apply_command cmd (current_index s)) (int (length (playlist s)))"
    and scp: "playlist sc = playlist s"
    by (simp_all add: sc_def)
  from st startup_unfold [OF cc ep sc_def]
  have r: "(case py_index (playlist sc) (current_index sc) of
              Inl err \<Rightarrow> Some (Raised, command_name cmd, [EvGet cmd] @ [], sc)
            | Inr page_url \<Rightarrow>
                (case get_media_url e page_url (format (config sc)) of
                   Raises \<Rightarrow>
                     Some (Raised, command_name cmd, [EvGet cmd] @ [] @ [EvLocate page_url], sc)
                 | Returns (video_url, audio_url) \<Rightarrow>
                     if falsy video_url \<or> falsy audio_url then
                       Some (Continue, Some ''next'', [EvGet cmd] @ [] @ [EvLocate page_url], sc)
                     else
                       map_option
                         (\<lambda>(k, c, ev, s'). (k, c, [EvGet cmd] @ [] @ [EvLocate page_url] @ ev, s'))
                         (launch e (command_name cmd) (the video_url) (the audio_url) sc)))
            = Some (k, c, ev, s1)"
    by (simp only:)
  have "current_index s1 = current_index sc \<and> playlist s1 = playlist sc \<and> c \<noteq> None"
  proof (cases "py_index (playlist sc) (current_index sc)")
    case (Inl err)
    with r cn show ?thesis by auto
  next
    case (Inr page_url)
    show ?thesis
    proof (cases "get_media_url e page_url (format (config sc))")
      case Raises
      with r Inr cn show ?thesis by auto
    next
      case (Returns p)
      obtain video_url audio_url where p: "p = (video_url, audio_url)" by (cases p)
      show ?thesis
      proof (cases "falsy video_url \<or> falsy audio_url")
        case True
        with r Inr Returns p show ?thesis by auto
      next
        case False
        with r Inr Returns p obtain lev
          where l: "launch e (command_name cmd) (the video_url) (the audio_url) sc
                      = Some (k, c, lev, s1)"
          by (cases "launch e (command_name cmd) (the video_url) (the audio_url) sc") auto
        from launch_index [OF l] cn show ?thesis by simp
      qed
    qed
  qed
  with sci scp show "current_index s1
           = handle_index_boundaries (apply_command cmd (current_index s))
               (int (length (playlist s)))"
    and "playlist s1 = playlist s" and "c \<noteq> None"
    by simp_all
qed

lemma cycle_after_command:
  assumes cy: "cycle e s = Some (k, tr, s')"
    and q: "command_queue s = cmd # q" and ns: "cmd \<noteq> Stop" and pl: "playlist s \<noteq> []"
  shows "current_index s'
           = handle_index_boundaries (apply_command cmd (current_index s))
               (int (length (playlist s)))"
proof -
  from cy obtain c ev s1 cev where
    tb: "try_body e s = Some (k, c, ev, s1)" and
    cl: "cleanup (late_calls e) c s1 = (cev, s')"
    by (auto simp: cycle_def split: option.splits prod.splits)
  from tb obtain ev0 s0 where st: "startup e s = Some (k, c, ev0, s0)"
    by (auto simp: try_body_def split: option.splits prod.splits if_splits)
  note sa = startup_after_command [OF st q ns pl]
  have "current_index s1 = current_index s0"
  proof (cases "k = Fallthrough")
    case True
    with tb st obtain mev where "monitor_loop (polls e) s0 = Some (mev, s1)"
      by (auto simp: try_body_def)
    from monitor_loop_fields [OF this] show ?thesis by simp
  next
    case False
    with tb st show ?thesis by (auto simp: try_body_def)
  qed
  moreover from cleanup_index [OF cl] sa(3) have "current_index s' = current_index s1"
    by simp
  ultimately show ?thesis using sa(1) by simp
qed

subsection \<open>Unfolding a cycle on a scenario\<close>

lemmas cycle_defs =
  cycle_def try_body_def startup_def launch_def check_commands_def ensure_playlist_def
  cleanup_def handle_exception_def handle_index_boundaries_def py_index_def falsy_def
  wait_for_stream_def deliver_def call_api_def Let_def

lemmas example_defs =
  example_config_def fresh_def loaded_def ready_at_once_def live_A_def env_unresolved_def
  env_playing_def env_next_while_live_def env_probe_fails_def env_probe_raises_def
  env_stop_called_def env_resolved_def

section \<open>Properties\<close>

text \<open>
  C1: when the media locator returns no usable source for the video at the current
  index, the cycle launches nothing and the loop goes on, but the index does not advance.
  The \<^verbatim>\<open>continue\<close> sets \<^verbatim>\<open>command = 'next'\<close>, and the cleanup block advances the
  index only when \<^verbatim>\<open>command\<close> is empty: with the playlist A, B, C and the index at B,
  the cycle leaves the index at B and the next cycle asks for B again.
\<close>

theorem media_failure_replays_same_video:
  "cycle env_unresolved (loaded 1 [] False)
     = Some (Continue, [EvLocate ''B'', EvSleep 3000], loaded 1 [] False)
   \<and> stream_worker [env_unresolved, env_unresolved] (loaded 1 [] False)
     = Some (False, [EvLocate ''B'', EvSleep 3000, EvLocate ''B'', EvSleep 3000],
             loaded 1 [] False)"
  by (simp add: cycle_defs example_defs)

text \<open>
  C2: when the playlist is empty and the resolver returns nothing, the worker sleeps
  60 seconds and leaves the \<^verbatim>\<open>try\<close> block with \<^verbatim>\<open>continue\<close>; the cleanup block runs
  all the same and, since no command drove the cycle, adds one to the index: from the
  initial \<open>-1\<close> it goes to \<open>0\<close>, then to \<open>1\<close>, and when the resolver then returns A, B, C
  the first video played is B.
\<close>

theorem empty_playlist_moves_index:
  "init ''U'' ''720p'' = Some fresh
   \<and> cycle env_unresolved fresh
       = Some (Continue, [EvFetch ''U'', EvSleep 60000, EvSleep 3000], fresh\<lparr>current_index := 0\<rparr>)
   \<and> cycle env_unresolved (fresh\<lparr>current_index := 0\<rparr>)
       = Some (Continue, [EvFetch ''U'', EvSleep 60000, EvSleep 3000], fresh\<lparr>current_index := 1\<rparr>)
   \<and> stream_worker [env_unresolved, env_unresolved, env_resolved] fresh
       = Some (False,
               [EvFetch ''U'', EvSleep 60000, EvSleep 3000,
                EvFetch ''U'', EvSleep 60000, EvSleep 3000,
                EvFetch ''U'', EvLocate ''B'', EvClean, EvReadyClear,
                EvLaunch (Popen ''v:B'' ''a:B'' ''1280x720'' ''2500k''), EvProbe True,
                EvReadySet, EvSleep 3000],
               loaded 2 [] True)"
  by (simp add: cycle_defs example_defs init_def init_config_def QUALITY_PRESETS_def)

text \<open>
  C3, as the code has it: for \<open>n \<ge> 1\<close> and a non-empty playlist of length \<open>len\<close>,
  \<^verbatim>\<open>("skip", n)\<close> followed by the boundary block gives the index \<open>n - 1\<close> when
  \<open>n \<le> len\<close> and \<open>0\<close> when \<open>n > len\<close>; the same skip applied again gives the same index.
  For \<open>n \<le> len\<close> this is \<open>(n - 1) mod len\<close>. It is also the index a whole cycle ends with
  when it takes \<^verbatim>\<open>("skip", n)\<close> from the queue, however the cycle goes on.
\<close>

theorem skip_then_normalize:
  assumes "1 \<le> n" and "0 < len"
  shows "handle_index_boundaries (apply_command (Skip n) i) len = (if n \<le> len then n - 1 else 0)
       \<and> handle_index_boundaries
            (apply_command (Skip n) (handle_index_boundaries (apply_command (Skip n) i) len)) len
          = handle_index_boundaries (apply_command (Skip n) i) len
       \<and> (n \<le> len \<longrightarrow> handle_index_boundaries (apply_command (Skip n) i) len = (n - 1) mod len)
       \<and> (command_queue s = Skip n # q \<and> int (length (playlist s)) = len
            \<and> cycle e s = Some (k, tr, s')
          \<longrightarrow> current_index s' = (if n \<le> len then n - 1 else 0))"
proof -
  have a: "handle_index_boundaries (apply_command (Skip n) j) len = (if n \<le> len then n - 1 else 0)"
    for j
    using assms by (simp add: handle_index_boundaries_def)
  have b: "n \<le> len \<longrightarrow> (if n \<le> len then n - 1 else 0) = (n - 1) mod len"
    using assms by simp
  have c: "current_index s' = (if n \<le> len then n - 1 else 0)"
    if h: "command_queue s = Skip n # q \<and> int (length (playlist s)) = len
            \<and> cycle e s = Some (k, tr, s')"
  proof -
    from h assms(2) have pl: "playlist s \<noteq> []" by auto
    from h have cy: "cycle e s = Some (k, tr, s')" and qu: "command_queue s = Skip n # q"
      and ln: "int (length (playlist s)) = len"
      by simp_all
    have "current_index s'
            = handle_index_boundaries (apply_command (Skip n) (current_index s))
                (int (length (playlist s)))"
      by (rule cycle_after_command [OF cy qu _ pl]) simp
    then show ?thesis by (simp only: ln a)
  qed
  from a b c show ?thesis by (simp only: simp_thms) blast
qed

theorem skip_then_normalize_witness:
  "(1::int) \<le> 3 \<and> (0::int) < 3
   \<and> handle_index_boundaries (apply_command (Skip 3) 0) 3 = 2
   \<and> handle_index_boundaries
        (apply_command (Skip 3) (handle_index_boundaries (apply_command (Skip 3) 0) 3)) 3
      = handle_index_boundaries (apply_command (Skip 3) 0) 3
   \<and> command_queue (loaded 0 [Skip 3] False) = Skip 3 # []
   \<and> int (length (playlist (loaded 0 [Skip 3] False))) = 3
   \<and> cycle (env_playing [\<lparr>calls = [], exited = True\<rparr>]) (loaded 0 [Skip 3] False)
       = Some (Fallthrough,
               [EvGet (Skip 3), EvLocate ''C'', EvClean, EvReadyClear,
                EvLaunch (Popen ''v:C'' ''a:C'' ''1280x720'' ''2500k''), EvProbe True,
                EvReadySet, EvSleep 3000],
               loaded 2 [] True)
   \<and> current_index (loaded 2 [] True) = 2"
proof -
  let ?tr = "[EvGet (Skip 3), EvLocate ''C'', EvClean, EvReadyClear,
                EvLaunch (Popen ''v:C'' ''a:C'' ''1280x720'' ''2500k''), EvProbe True,
                EvReadySet, EvSleep 3000]"
  have h1: "(1::int) \<le> 3" and h2: "(0::int) < 3" by simp_all
  have h3: "command_queue (loaded 0 [Skip 3] False) = Skip 3 # []
      \<and> int (length (playlist (loaded 0 [Skip 3] False))) = 3
      \<and> cycle (env_playing [\<lparr>calls = [], exited = True\<rparr>]) (loaded 0 [Skip 3] False)
          = Some (Fallthrough, ?tr, loaded 2 [] True)"
    by (simp add: cycle_defs example_defs)
  from skip_then_normalize [OF h1 h2, of 0 "loaded 0 [Skip 3] False" "[]"
      "env_playing [\<lparr>calls = [], exited = True\<rparr>]" Fallthrough ?tr "loaded 2 [] True"] h3
  have "handle_index_boundaries (apply_command (Skip 3) 0) 3 = 2
     \<and> handle_index_boundaries
          (apply_command (Skip 3) (handle_index_boundaries (apply_command (Skip 3) 0) 3)) 3
        = handle_index_boundaries (apply_command (Skip 3) 0) 3
     \<and> current_index (loaded 2 [] True) = 2"
    by simp
  with h1 h2 h3 show ?thesis by simp
qed

text \<open>
  The claim as stated, with \<open>(n - 1) mod len\<close> for every \<open>n\<close>, fails beyond the end of
  the playlist: skipping to video 5 of 3 gives index 0, not \<open>4 mod 3 = 1\<close>.
\<close>

theorem skip_mod_counterexample:
  "handle_index_boundaries (apply_command (Skip 5) 0) 3 \<noteq> (5 - 1) mod 3"
  by (simp add: handle_index_boundaries_def)

text \<open>
  C4: whatever commands and auto-advances have moved the index, on a non-empty playlist
  the boundary block leaves it in \<open>[0, len)\<close>: an index at or beyond \<open>len\<close> becomes \<open>0\<close>, a
  negative one becomes \<open>len - 1\<close>, and indexing the playlist with the result does not raise.
\<close>

theorem index_normalized:
  assumes "pl \<noteq> []"
  shows "0 \<le> handle_index_boundaries (foldl apply_step i steps) (int (length pl))
       \<and> handle_index_boundaries (foldl apply_step i steps) (int (length pl)) < int (length pl)
       \<and> (foldl apply_step i steps \<ge> int (length pl)
            \<longrightarrow> handle_index_boundaries (foldl apply_step i steps) (int (length pl)) = 0)
       \<and> (foldl apply_step i steps < 0
            \<longrightarrow> handle_index_boundaries (foldl apply_step i steps) (int (length pl))
                  = int (length pl) - 1)
       \<and> py_index pl (handle_index_boundaries (foldl apply_step i steps) (int (length pl)))
           = Inr (pl ! nat (handle_index_boundaries (foldl apply_step i steps) (int (length pl))))"
proof -
  from assms have n: "0 < int (length pl)" by simp
  show ?thesis
    using n by (simp add: handle_index_boundaries_def py_index_def Let_def)
qed

theorem index_normalized_witness:
  "[''A'', ''B'', ''C''] \<noteq> []
   \<and> foldl apply_step 2 [Advance, Command Next] = 4
   \<and> handle_index_boundaries (foldl apply_step 2 [Advance, Command Next])
        (int (length [''A'', ''B'', ''C''])) = 0
   \<and> py_index [''A'', ''B'', ''C'']
        (handle_index_boundaries (foldl apply_step 2 [Advance, Command Next])
           (int (length [''A'', ''B'', ''C'']))) = Inr ''A''"
proof -
  have h: "[''A'', ''B'', ''C''] \<noteq> []" by simp
  have f: "foldl apply_step 2 [Advance, Command Next] = 4" by simp
  from index_normalized [OF h, of 2 "[Advance, Command Next]"] h f show ?thesis
    by (simp add: handle_index_boundaries_def py_index_def)
qed

text \<open>
  C5, as the code has it: readiness is cleared only just before a launch and set only
  after a successful startup probe; the termination of the transcoder does not touch it.
  After a cycle that cleared readiness, readiness is true exactly when the probe of that
  cycle succeeded; after any other cycle it is what it was before. Every launch comes
  right after readiness is cleared.
\<close>

theorem readiness_follows_launch_and_probe:
  assumes "cycle e s = Some (k, tr, s')"
  shows "stream_ready s'
           = (if EvReadyClear \<in> set tr then EvProbe True \<in> set tr else stream_ready s)
       \<and> (EvReadySet \<in> set tr \<longleftrightarrow> EvProbe True \<in> set tr)
       \<and> (\<forall>p. EvLaunch p \<in> set tr
             \<longrightarrow> (\<exists>pre post. tr = pre @ EvReadyClear # EvLaunch p # post))"
proof -
  from cycle_decompose [OF assms] obtain c ev0 s0 tail where
    st: "startup e s = Some (k, c, ev0, s0)" and tr: "tr = ev0 @ tail" and
    tail: "list_all prefix_event tail" and r: "stream_ready s' = stream_ready s0"
    by blast
  note nt = prefix_event_not_ready [OF tail]
  from startup_cases [OF st] show ?thesis
  proof
    assume a: "list_all prefix_event ev0 \<and> stream_ready s0 = stream_ready s
            \<and> stop_event s0 = stop_event s \<and> ffmpeg_proc s0 = ffmpeg_proc s
            \<and> k \<noteq> Fallthrough \<and> (k = Break \<longrightarrow> ev0 = [EvGet Stop])"
    then have "list_all prefix_event tr" using tail tr by simp
    from prefix_event_not_ready [OF this] a r show ?thesis by simp
  next
    assume "\<exists>pre lev c0 v a s1. ev0 = pre @ lev \<and> list_all prefix_event pre
              \<and> launch e c0 v a s1 = Some (k, c, lev, s0) \<and> stop_event s1 = stop_event s"
    then obtain pre lev c0 v a s1 where ev0: "ev0 = pre @ lev" and
      pre: "list_all prefix_event pre" and l: "launch e c0 v a s1 = Some (k, c, lev, s0)"
      by blast
    note np = prefix_event_not_ready [OF pre]
    note lr = launch_result [OF l]
    from lr(5) obtain rest where lev: "lev = EvClean # EvReadyClear # rest"
      and la: "\<forall>p. EvLaunch p \<in> set lev \<longrightarrow> (\<exists>post. rest = EvLaunch p # post)"
      by blast
    have mem: "\<And>x. \<not> prefix_event x \<Longrightarrow> x \<in> set tr \<longleftrightarrow> x \<in> set lev"
      using pre tail by (auto simp: tr ev0 list_all_iff)
    have c1: "EvReadyClear \<in> set tr" by (simp add: tr ev0 lev)
    have c2: "EvProbe True \<in> set tr \<longleftrightarrow> EvProbe True \<in> set lev" by (rule mem) simp
    have c3: "EvReadySet \<in> set tr \<longleftrightarrow> EvReadySet \<in> set lev" by (rule mem) simp
    have c4: "\<forall>p. EvLaunch p \<in> set tr
             \<longrightarrow> (\<exists>pre' post. tr = pre' @ EvReadyClear # EvLaunch p # post)"
    proof (intro allI impI)
      fix p assume "EvLaunch p \<in> set tr"
      then have "EvLaunch p \<in> set lev" using mem [of "EvLaunch p"] by simp
      with la obtain post where "rest = EvLaunch p # post" by blast
      then have "tr = (pre @ [EvClean]) @ EvReadyClear # EvLaunch p # (post @ tail)"
        by (simp add: tr ev0 lev)
      then show "\<exists>pre' post. tr = pre' @ EvReadyClear # EvLaunch p # post" by blast
    qed
    from c1 c2 c3 c4 lr(2) lr(3) r show ?thesis by simp
  qed
qed

theorem readiness_follows_launch_and_probe_witness:
  "cycle env_probe_fails (loaded 0 [] True)
     = Some (Continue,
             [EvLocate ''A'', EvClean, EvReadyClear,
              EvLaunch (Popen ''v:A'' ''a:A'' ''1280x720'' ''2500k''), EvProbe False,
              EvTerminate, EvSleep 3000],
             loaded 0 [] False)
   \<and> stream_ready (loaded 0 [] True) \<and> \<not> stream_ready (loaded 0 [] False)"
proof -
  let ?tr = "[EvLocate ''A'', EvClean, EvReadyClear,
              EvLaunch (Popen ''v:A'' ''a:A'' ''1280x720'' ''2500k''), EvProbe False,
              EvTerminate, EvSleep 3000]"
  have h: "cycle env_probe_fails (loaded 0 [] True) = Some (Continue, ?tr, loaded 0 [] False)"
    by (simp add: cycle_defs example_defs)
  from readiness_follows_launch_and_probe [OF h]
  have "\<not> stream_ready (loaded 0 [] False)" by simp
  moreover have "stream_ready (loaded 0 [] True)" by (simp add: loaded_def)
  ultimately show ?thesis using h by simp
qed

text \<open>
  The claim as stated fails: when \<^verbatim>\<open>next()\<close> is called while A is live, the worker
  terminates the transcoder and clears the handle, and readiness is still true after
  the cycle.
\<close>

theorem ready_after_termination_counterexample:
  "cycle (env_playing [\<lparr>calls = [], exited = False\<rparr>, \<lparr>calls = [CallNext], exited = False\<rparr>])
         (loaded 0 [] False)
     = Some (Fallthrough,
             [EvLocate ''A'', EvClean, EvReadyClear,
              EvLaunch (Popen ''v:A'' ''a:A'' ''1280x720'' ''2500k''), EvProbe True, EvReadySet,
              EvSleep 500, EvTerminate],
             loaded 0 [Next] True)
   \<and> ffmpeg_proc (loaded 0 [Next] True) = None
   \<and> stream_ready (loaded 0 [Next] True)"
  by (simp add: cycle_defs example_defs)

text \<open>
  C6: a video that ends on its own, with an empty queue and no stop pending, moves the
  index by one only when no command drove the cycle. When \<^verbatim>\<open>"next"\<close> started B and B
  ends on its own, \<^verbatim>\<open>command\<close> is still \<^verbatim>\<open>"next"\<close> in the cleanup block: the index
  stays at B and the next cycle plays B again.
\<close>

theorem natural_end_after_command_replays:
  "cycle (env_playing [\<lparr>calls = [], exited = True\<rparr>]) (loaded 0 [Next] False)
     = Some (Fallthrough,
             [EvGet Next, EvLocate ''B'', EvClean, EvReadyClear,
              EvLaunch (Popen ''v:B'' ''a:B'' ''1280x720'' ''2500k''), EvProbe True, EvReadySet,
              EvSleep 3000],
             loaded 1 [] True)
   \<and> stream_worker [env_playing [\<lparr>calls = [], exited = True\<rparr>],
                    env_playing [\<lparr>calls = [], exited = True\<rparr>]] (loaded 0 [Next] False)
     = Some (False,
             [EvGet Next, EvLocate ''B'', EvClean, EvReadyClear,
              EvLaunch (Popen ''v:B'' ''a:B'' ''1280x720'' ''2500k''), EvProbe True, EvReadySet,
              EvSleep 3000,
              EvLocate ''B'', EvClean, EvReadyClear,
              EvLaunch (Popen ''v:B'' ''a:B'' ''1280x720'' ''2500k''), EvProbe True, EvReadySet,
              EvSleep 3000],
             loaded 2 [] True)"
  by (simp add: cycle_defs example_defs)

text \<open>
  C7: when the stream is live with an empty queue and no stop pending, and a call of
  \<^verbatim>\<open>next()\<close>, \<^verbatim>\<open>prev()\<close> or \<^verbatim>\<open>skip(n)\<close> is seen at a poll while the transcoder is
  running, the worker terminates the transcoder, the cleanup block leaves the index and
  the queue alone (the command stays at the head of the queue), and section 1 of the next
  cycle takes that command and applies it to the index the video was played at.
\<close>

theorem command_during_live:
  assumes "startup e s = Some (Fallthrough, command, ev, s1)"
    and "command_queue s1 = []" and "\<not> stop_event s1"
    and "polls e = quiet @ ob # rest"
    and "\<forall>ob' \<in> set quiet. calls ob' = [] \<and> \<not> exited ob'"
    and "calls ob = [c]" and "c \<noteq> CallStop" and "\<not> exited ob"
  shows "\<exists>s'. cycle e s = Some (Fallthrough,
                   ev @ replicate (length quiet) (EvSleep 500) @ [EvTerminate], s')
           \<and> current_index s' = current_index s1
           \<and> command_queue s' = queued_item c # map queued_item (late_calls e)
           \<and> check_commands s'
               = (False, command_name (queued_item c), [EvGet (queued_item c)],
                  s'\<lparr>command_queue := map queued_item (late_calls e),
                     current_index := apply_command (queued_item c) (current_index s1)\<rparr>)"
proof -
  let ?s2 = "call_api s1 c"
  have m: "monitor_loop (polls e) s1
             = Some (replicate (length quiet) (EvSleep 500) @ [EvTerminate], ?s2)"
    using monitor_loop_command [OF assms(5) assms(6) assms(7) assms(8) assms(2) assms(3)]
    by (simp only: assms(4))
  have t: "try_body e s = Some (Fallthrough, command,
             ev @ replicate (length quiet) (EvSleep 500) @ [EvTerminate], ?s2)"
    using assms(1) m by (simp add: try_body_def)
  obtain ev' s' where c: "cleanup (late_calls e) command ?s2 = (ev', s')"
    by (cases "cleanup (late_calls e) command ?s2")
  have q2: "command_queue ?s2 = [queued_item c]"
    using assms(2) by (simp add: call_api_def)
  have i2: "current_index ?s2 = current_index s1"
    by (simp add: call_api_def)
  from cleanup_fields [OF c] q2
  have q: "command_queue s' = queued_item c # map queued_item (late_calls e)" by simp
  from cleanup_index [OF c] q2 i2 have i: "current_index s' = current_index s1"
    by simp
  from cleanup_events [OF c] q have "ev' = []" by simp
  with t c have cy: "cycle e s = Some (Fallthrough,
                   ev @ replicate (length quiet) (EvSleep 500) @ [EvTerminate], s')"
    by (simp add: cycle_def)
  from assms(7) have ns: "queued_item c \<noteq> Stop" by (cases c) simp_all
  have "check_commands s'
               = (False, command_name (queued_item c), [EvGet (queued_item c)],
                  s'\<lparr>command_queue := map queued_item (late_calls e),
                     current_index := apply_command (queued_item c) (current_index s1)\<rparr>)"
    using q i ns by (simp add: check_commands_def)
  with cy i q show ?thesis by blast
qed

theorem command_during_live_witness:
  "startup env_next_while_live (loaded 0 [] False)
     = Some (Fallthrough, None,
         [EvLocate ''A'', EvClean, EvReadyClear,
          EvLaunch (Popen ''v:A'' ''a:A'' ''1280x720'' ''2500k''), EvProbe True, EvReadySet],
         live_A)
   \<and> command_queue live_A = [] \<and> \<not> stop_event live_A
   \<and> polls env_next_while_live
       = [\<lparr>calls = [], exited = False\<rparr>] @ \<lparr>calls = [CallNext], exited = False\<rparr> # []
   \<and> (\<exists>s'. cycle env_next_while_live (loaded 0 [] False)
             = Some (Fallthrough,
                 [EvLocate ''A'', EvClean, EvReadyClear,
                  EvLaunch (Popen ''v:A'' ''a:A'' ''1280x720'' ''2500k''), EvProbe True,
                  EvReadySet, EvSleep 500, EvTerminate], s')
           \<and> current_index s' = 0 \<and> command_queue s' = [Next]
           \<and> check_commands s'
               = (False, Some ''next'', [EvGet Next],
                  s'\<lparr>command_queue := [], current_index := 1\<rparr>))"
proof -
  let ?p = "Popen ''v:A'' ''a:A'' ''1280x720'' ''2500k''"
  let ?ev = "[EvLocate ''A'', EvClean, EvReadyClear, EvLaunch ?p, EvProbe True, EvReadySet]"
  let ?q = "\<lparr>calls = [], exited = False\<rparr>"
  let ?ob = "\<lparr>calls = [CallNext], exited = False\<rparr>"
  have h1: "startup env_next_while_live (loaded 0 [] False) = Some (Fallthrough, None, ?ev, live_A)"
    by (simp add: cycle_defs example_defs)
  have h2: "command_queue live_A = []" and h3: "\<not> stop_event live_A"
    by (simp_all add: loaded_def live_A_def)
  have h4: "polls env_next_while_live = [?q] @ ?ob # []"
    by (simp add: env_playing_def env_next_while_live_def)
  have h5: "\<forall>ob' \<in> set [?q]. calls ob' = [] \<and> \<not> exited ob'"
    by simp
  have h6: "calls ?ob = [CallNext]" and h7: "CallNext \<noteq> CallStop" and h8: "\<not> exited ?ob"
    by simp_all
  have l: "late_calls env_next_while_live = []"
    by (simp add: env_playing_def env_next_while_live_def)
  have i: "current_index live_A = 0"
    by (simp add: loaded_def live_A_def)
  from command_during_live [OF h1 h2 h3 h4 h5 h6 h7 h8]
  have "\<exists>s'. cycle env_next_while_live (loaded 0 [] False)
             = Some (Fallthrough, ?ev @ [EvSleep 500, EvTerminate], s')
           \<and> current_index s' = 0 \<and> command_queue s' = [Next]
           \<and> check_commands s'
               = (False, Some ''next'', [EvGet Next],
                  s'\<lparr>command_queue := [], current_index := 1\<rparr>)"
    by (simp add: l i)
  with h1 h2 h3 h4 show ?thesis by simp
qed

text \<open>
  C8: an exception raised in the \<^verbatim>\<open>try\<close> block ends the cycle, not the loop: the
  handler terminates the transcoder if there is one and sleeps 10 seconds, the cleanup
  block clears the handle, and the worker goes on with the next cycle. When the loop is
  left, readiness is true, and either \<^verbatim>\<open>stop_event\<close> is set or \<^verbatim>\<open>"stop"\<close> was taken
  from the queue.
\<close>

theorem exception_is_caught_and_only_stop_ends:
  "(try_body e s = Some (Raised, command, ev, s1)
      \<longrightarrow> (\<exists>cev s'. cycle e s
                = Some (Raised,
                        ev @ (if ffmpeg_proc s1 \<noteq> None then [EvTerminate] else [])
                           @ [EvSleep 10000] @ cev, s')
              \<and> ffmpeg_proc s' = None))
   \<and> (\<not> stop_event (deliver (pre_calls e) s)
        \<and> cycle e (deliver (pre_calls e) s) = Some (Raised, tr, s2)
      \<longrightarrow> stream_worker (e # es) s
            = map_option (\<lambda>(fin, tr', s3). (fin, tr @ tr', s3)) (stream_worker es s2))
   \<and> (stream_worker es' s = Some (True, tr', s4)
      \<longrightarrow> stream_ready s4 \<and> (stop_event s4 \<or> EvGet Stop \<in> set tr'))"
proof (intro conjI impI)
  assume tb: "try_body e s = Some (Raised, command, ev, s1)"
  obtain cev s' where cl: "cleanup (late_calls e) command s1 = (cev, s')"
    by (cases "cleanup (late_calls e) command s1")
  from tb cl have "cycle e s
                = Some (Raised,
                        ev @ (if ffmpeg_proc s1 \<noteq> None then [EvTerminate] else [])
                           @ [EvSleep 10000] @ cev, s')"
    by (simp add: cycle_def handle_exception_def)
  moreover from cleanup_fields [OF cl] have "ffmpeg_proc s' = None" by simp
  ultimately show "\<exists>cev s'. cycle e s
                = Some (Raised,
                        ev @ (if ffmpeg_proc s1 \<noteq> None then [EvTerminate] else [])
                           @ [EvSleep 10000] @ cev, s')
              \<and> ffmpeg_proc s' = None"
    by blast
next
  assume "\<not> stop_event (deliver (pre_calls e) s)
        \<and> cycle e (deliver (pre_calls e) s) = Some (Raised, tr, s2)"
  then show "stream_worker (e # es) s
            = map_option (\<lambda>(fin, tr', s3). (fin, tr @ tr', s3)) (stream_worker es s2)"
    by (simp add: Let_def)
next
  assume "stream_worker es' s = Some (True, tr', s4)"
  from stream_worker_exit [OF this]
  show "stream_ready s4" and "stop_event s4 \<or> EvGet Stop \<in> set tr'" by simp_all
qed

theorem exception_is_caught_and_only_stop_ends_witness:
  "try_body env_probe_raises (loaded 0 [] False)
     = Some (Raised, None,
             [EvLocate ''A'', EvClean, EvReadyClear,
              EvLaunch (Popen ''v:A'' ''a:A'' ''1280x720'' ''2500k'')],
             (loaded 0 [] False)\<lparr>ffmpeg_proc := Some (Popen ''v:A'' ''a:A'' ''1280x720'' ''2500k'')\<rparr>)
   \<and> cycle env_probe_raises (loaded 0 [] False)
     = Some (Raised,
             [EvLocate ''A'', EvClean, EvReadyClear,
              EvLaunch (Popen ''v:A'' ''a:A'' ''1280x720'' ''2500k''),
              EvTerminate, EvSleep 10000, EvSleep 3000],
             loaded 1 [] False)
   \<and> stream_worker [env_probe_raises, env_stop_called] (loaded 0 [] False)
     = Some (True,
             [EvLocate ''A'', EvClean, EvReadyClear,
              EvLaunch (Popen ''v:A'' ''a:A'' ''1280x720'' ''2500k''),
              EvTerminate, EvSleep 10000, EvSleep 3000, EvReadySet],
             (loaded 1 [Stop] True)\<lparr>stop_event := True\<rparr>)
   \<and> stream_ready ((loaded 1 [Stop] True)\<lparr>stop_event := True\<rparr>)
   \<and> stop_event ((loaded 1 [Stop] True)\<lparr>stop_event := True\<rparr>)"
proof -
  let ?p = "Popen ''v:A'' ''a:A'' ''1280x720'' ''2500k''"
  let ?ev = "[EvLocate ''A'', EvClean, EvReadyClear, EvLaunch ?p]"
  let ?tr = "?ev @ [EvTerminate, EvSleep 10000, EvSleep 3000]"
  let ?s1 = "(loaded 0 [] False)\<lparr>ffmpeg_proc := Some ?p\<rparr>"
  let ?s4 = "(loaded 1 [Stop] True)\<lparr>stop_event := True\<rparr>"
  have h1: "try_body env_probe_raises (loaded 0 [] False) = Some (Raised, None, ?ev, ?s1)"
    by (simp add: cycle_defs example_defs)
  have h2: "\<not> stop_event (deliver (pre_calls env_probe_raises) (loaded 0 [] False))
        \<and> cycle env_probe_raises (deliver (pre_calls env_probe_raises) (loaded 0 [] False))
            = Some (Raised, ?tr, loaded 1 [] False)"
    by (simp add: cycle_defs example_defs)
  have h3: "stream_worker [env_probe_raises, env_stop_called] (loaded 0 [] False)
              = Some (True, ?tr @ [EvReadySet], ?s4)"
    by (simp add: cycle_defs example_defs)
  note t = exception_is_caught_and_only_stop_ends
      [where e = env_probe_raises and s = "loaded 0 [] False" and command = None and ev = ?ev
         and ?s1.0 = ?s1 and tr = ?tr and ?s2.0 = "loaded 1 [] False" and es = "[env_stop_called]"
         and es' = "[env_probe_raises, env_stop_called]" and tr' = "?tr @ [EvReadySet]"
         and ?s4.0 = ?s4]
  from t h1 h2 h3 have "stream_ready ?s4 \<and> (stop_event ?s4 \<or> EvGet Stop \<in> set (?tr @ [EvReadySet]))"
    by blast
  then have r: "stream_ready ?s4 \<and> stop_event ?s4" by simp
  have c: "cycle env_probe_raises (loaded 0 [] False) = Some (Raised, ?tr, loaded 1 [] False)"
    by (simp add: cycle_defs example_defs)
  have "?tr @ [EvReadySet]
          = [EvLocate ''A'', EvClean, EvReadyClear, EvLaunch ?p,
             EvTerminate, EvSleep 10000, EvSleep 3000, EvReadySet]"
    and "?tr = [EvLocate ''A'', EvClean, EvReadyClear, EvLaunch ?p,
             EvTerminate, EvSleep 10000, EvSleep 3000]"
    by simp_all
  with h1 c h3 r show ?thesis by (intro conjI) simp_all
qed

text \<open>
  C9: for a quality identifier that is not in the table, constructing the manager
  does not fail; the configuration is the \<^verbatim>\<open>"720p"\<close> preset (its format selector,
  resolution and bitrate) with the given URL, the same as for \<^verbatim>\<open>"720p"\<close> itself.
\<close>

theorem unknown_quality_defaults_to_720p:
  assumes "QUALITY_PRESETS quality_key = None"
  shows "init u quality_key = init u ''720p''
       \<and> (\<exists>m. init u quality_key = Some m
            \<and> config m = \<lparr>format = ''bestvideo[height<=720]+bestaudio/best[height<=720]'',
                           resolution = ''1280x720'', bitrate = ''2500k'', url = u\<rparr>)"
  using assms by (simp add: init_def init_config_def QUALITY_PRESETS_def)

theorem unknown_quality_defaults_to_720p_witness:
  "QUALITY_PRESETS ''9999p'' = None
   \<and> init ''u'' ''9999p'' = init ''u'' ''720p''
   \<and> (\<exists>m. init ''u'' ''9999p'' = Some m
        \<and> config m = \<lparr>format = ''bestvideo[height<=720]+bestaudio/best[height<=720]'',
                       resolution = ''1280x720'', bitrate = ''2500k'', url = ''u''\<rparr>)"
proof -
  have h: "QUALITY_PRESETS ''9999p'' = None"
    by (simp add: QUALITY_PRESETS_def)
  show ?thesis
    using h unknown_quality_defaults_to_720p [OF h, of "''u''"] by blast
qed

text \<open>
  C10: in the startup probe, an iteration within the timeout that sees both the manifest
  and the first chunk returns true whether or not the transcoder has exited by then,
  provided no earlier iteration ended the loop; and the probe returns false only at an
  iteration past the timeout, or at one that sees the transcoder exited while one of the
  two files has not been seen yet.
\<close>

theorem probe_checks_files_before_exit:
  "((\<forall>ob' \<in> set pre. elapsed ob' < timeout \<and> \<not> proc_exited ob')
      \<and> elapsed ob < timeout \<and> m3u8_ok ob \<and> ts_ok ob
      \<longrightarrow> wait_for_stream s timeout (pre @ ob # post) = Some True)
   \<and> (wait_for_stream s timeout obs = Some False
      \<longrightarrow> (\<exists>pre' ob' post'. obs = pre' @ ob' # post'
             \<and> (\<not> elapsed ob' < timeout
                \<or> (ffmpeg_proc s \<noteq> None \<and> proc_exited ob'
                    \<and> \<not> ((\<exists>x \<in> set (pre' @ [ob']). m3u8_ok x)
                          \<and> (\<exists>x \<in> set (pre' @ [ob']). ts_ok x))))))"
proof (intro conjI impI)
  assume "(\<forall>ob' \<in> set pre. elapsed ob' < timeout \<and> \<not> proc_exited ob')
      \<and> elapsed ob < timeout \<and> m3u8_ok ob \<and> ts_ok ob"
  then show "wait_for_stream s timeout (pre @ ob # post) = Some True"
    unfolding wait_for_stream_def by (intro wait_loop_both_ready) simp_all
next
  assume "wait_for_stream s timeout obs = Some False"
  then have "wait_loop timeout (ffmpeg_proc s \<noteq> None) obs False False = Some False"
    by (simp add: wait_for_stream_def)
  from wait_loop_False [OF this]
  show "\<exists>pre' ob' post'. obs = pre' @ ob' # post'
             \<and> (\<not> elapsed ob' < timeout
                \<or> (ffmpeg_proc s \<noteq> None \<and> proc_exited ob'
                    \<and> \<not> ((\<exists>x \<in> set (pre' @ [ob']). m3u8_ok x)
                          \<and> (\<exists>x \<in> set (pre' @ [ob']). ts_ok x))))"
    by simp
qed

theorem probe_checks_files_before_exit_witness:
  "wait_for_stream live_A 20000 [ready_at_once True] = Some True
   \<and> proc_exited (ready_at_once True)
   \<and> wait_for_stream live_A 20000
        [\<lparr>elapsed = 0, m3u8_ok = True, ts_ok = False, proc_exited = True\<rparr>] = Some False"
proof -
  have h1: "(\<forall>ob' \<in> set []. elapsed ob' < (20000::nat) \<and> \<not> proc_exited ob')
      \<and> elapsed (ready_at_once True) < 20000 \<and> m3u8_ok (ready_at_once True)
      \<and> ts_ok (ready_at_once True)"
    by (simp add: ready_at_once_def)
  have h2: "wait_for_stream live_A 20000
        [\<lparr>elapsed = 0, m3u8_ok = True, ts_ok = False, proc_exited = True\<rparr>] = Some False"
    by (simp add: wait_for_stream_def live_A_def)
  from probe_checks_files_before_exit
         [of "[]" 20000 "ready_at_once True" live_A "[]"
             "[\<lparr>elapsed = 0, m3u8_ok = True, ts_ok = False, proc_exited = True\<rparr>]"] h1
  have "wait_for_stream live_A 20000 [ready_at_once True] = Some True" by simp
  with h2 show ?thesis by (simp add: ready_at_once_def)
qed

end
